theory Spec2Isabelle
  imports Main "HOL-Library.Word" "HOL-Library.Signed_Division"
begin

unbundle bit_operations_syntax

section \<open>The Shark joystick emulator sketch\<close>

text \<open>
  The sketch runs on an 8-bit AVR Arduino: \<open>unsigned char\<close> and \<open>byte\<close> are 8 bits,
  \<open>int\<close> and \<open>word\<close> (unsigned int) are 16 bits, \<open>long\<close> is 32 bits. All
  arithmetic below is done at the width the C expression has after the integer
  promotions, and narrowed where the source assigns to a narrower variable.
\<close>

type_synonym byte = "8 word"
type_synonym uword = "16 word"
type_synonym long = "32 word"

subsection \<open>Arduino core helpers used by the sketch\<close>

text \<open>
  \<open>constrain\<close> and \<open>map\<close> are not defined in the repository: they come from the
  Arduino core (\<open>Arduino.h\<close>, \<open>WMath.cpp\<close>). They are written here as the core
  defines them:
  \<^verbatim>\<open>#define constrain(amt,low,high) ((amt)<(low)?(low):((amt)>(high)?(high):(amt)))\<close>
  \<^verbatim>\<open>long map(long x, long in_min, long in_max, long out_min, long out_max)
  { return (x - in_min) * (out_max - out_min) / (in_max - in_min) + out_min; }\<close>
  The sketch applies \<open>constrain\<close> to a \<open>word\<close> and two \<open>int\<close> literals, so
  the comparisons are unsigned 16-bit ones. C division truncates towards zero;
  the divisor \<open>in_max - in_min\<close> is a non-zero constant in every call the sketch
  makes.
\<close>

definition constrain :: "uword \<Rightarrow> uword \<Rightarrow> uword \<Rightarrow> uword" where
  "constrain amt low high =
     (if amt < low then low else if amt > high then high else amt)"

definition long_div :: "long \<Rightarrow> long \<Rightarrow> long" where
  "long_div a b = word_of_int (sint a sdiv sint b)"

definition map_long :: "long \<Rightarrow> long \<Rightarrow> long \<Rightarrow> long \<Rightarrow> long \<Rightarrow> long" where
  "map_long x in_min in_max out_min out_max =
     long_div ((x - in_min) * (out_max - out_min)) (in_max - in_min) + out_min"

subsection \<open>Global variables\<close>

text \<open>
  The globals of the sketch that its functions read or write. \<open>data\<close> is the
  array \<open>unsigned char data[12]\<close>, a store from index to cell; the sketch only
  uses the constant indices 0 to 10. \<open>onOffState\<close> is \<open>True\<close> for HIGH.
\<close>

record sketch =
  onOffState :: bool
  speedPotVal :: uword
  directionPotVal :: uword
  onOffVal :: uword
  maxSpeed :: byte
  speed :: uword
  direction :: uword
  data :: "nat \<Rightarrow> byte"

definition Deadband :: uword where
  "Deadband = 20"

text \<open>Static storage is zero-initialised; \<open>setup\<close> leaves \<open>onOffState\<close> LOW.\<close>

definition init_sketch :: sketch where
  "init_sketch = \<lparr> onOffState = False, speedPotVal = 0, directionPotVal = 0,
     onOffVal = 0, maxSpeed = 0, speed = 0, direction = 0, data = (\<lambda>_. 0) \<rparr>"

text \<open>
  What one pass of \<open>loop\<close> takes from its environment: the three results of
  \<open>pulseIn\<close> (an \<open>unsigned long\<close> each) and the bytes that arrive on the
  receive pin of \<open>sharkSerial\<close> during the pass. The sketch never calls
  \<open>sharkSerial.read\<close> or \<open>sharkSerial.available\<close>, so no function below
  looks at \<open>busRx\<close>.
\<close>

record cycle_input =
  onOffPulse :: long
  directionPulse :: long
  speedPulse :: long
  busRx :: "byte list"

subsection \<open>Checksum loop and serial output\<close>

text \<open>
  \<^verbatim>\<open>byte sum = 0; for (int i = 0; i < n; i++) sum += data[i] & 0x7f;\<close>
  The addition is narrowed to a byte on every pass.
\<close>

definition sum_loop :: "(nat \<Rightarrow> byte) \<Rightarrow> nat \<Rightarrow> byte" where
  "sum_loop d n = foldl (\<lambda>sum i. sum + (d i AND 0x7f)) 0 [0..<n]"

text \<open>\<^verbatim>\<open>for (unsigned char i = 0; i < n; i++) sharkSerial.write(data[i]);\<close>\<close>

definition serial_write :: "(nat \<Rightarrow> byte) \<Rightarrow> nat \<Rightarrow> byte list" where
  "serial_write d n = map d [0..<n]"

subsection \<open>sharkStartup\<close>

definition sharkStartup :: "sketch \<Rightarrow> sketch \<times> byte list" where
  "sharkStartup s =
     (let d0 = (data s)(0 := 0x74, 1 := 130, 2 := 133, 3 := 130, 4 := 128,
                        5 := 136, 6 := 205, 7 := 160, 8 := 128);
          sum = sum_loop d0 9;
          d1 = d0(9 := 0x7f - sum);
          d2 = d1(10 := 15)
      in (s\<lparr>data := d2\<rparr>, serial_write d2 11))"

subsection \<open>sharkOnMode\<close>

text \<open>The block that reads the direction channel (lines 197 to 210).\<close>

definition read_direction :: "long \<Rightarrow> sketch \<Rightarrow> sketch" where
  "read_direction pulse s =
     (let s1 = s\<lparr>directionPotVal := ucast pulse\<rparr>;
          s2 = s1\<lparr>directionPotVal := constrain (directionPotVal s1) 1100 1900\<rparr>;
          s3 = s2\<lparr>directionPotVal :=
                   ucast (map_long (ucast (directionPotVal s2)) 1000 2000 1 1023)\<rparr>
      in if directionPotVal s3 > 512 + Deadband
         then s3\<lparr>direction :=
                   ucast (map_long (ucast (directionPotVal s3))
                            (scast (512 + Deadband)) 1024 513 1023)\<rparr>
         else if directionPotVal s3 < 512 - Deadband
         then s3\<lparr>direction :=
                   ucast (map_long (ucast (directionPotVal s3))
                            0 (scast (512 - Deadband)) 1 511)\<rparr>
         else s3\<lparr>direction := 512\<rparr>)"

text \<open>The block that reads the speed channel (lines 213 to 224).\<close>

definition read_speed :: "long \<Rightarrow> sketch \<Rightarrow> sketch" where
  "read_speed pulse s =
     (let s1 = s\<lparr>speedPotVal := ucast pulse\<rparr>;
          s2 = s1\<lparr>speedPotVal := constrain (speedPotVal s1) 1000 2000\<rparr>;
          s3 = s2\<lparr>speedPotVal :=
                   ucast (map_long (ucast (speedPotVal s2)) 1000 2000 1023 1)\<rparr>
      in if speedPotVal s3 > 512 + Deadband
         then s3\<lparr>speed :=
                   ucast (map_long (ucast (speedPotVal s3))
                            (scast (512 + Deadband)) 1024 513 1023)\<rparr>
         else if speedPotVal s3 < 512 - Deadband
         then s3\<lparr>speed :=
                   ucast (map_long (ucast (speedPotVal s3))
                            0 (scast (512 - Deadband)) 1 511)\<rparr>
         else s3\<lparr>speed := 512\<rparr>)"

text \<open>
  Lines 251 to 310: the general packet is built from the globals \<open>speed\<close>,
  \<open>direction\<close> and \<open>maxSpeed\<close> as they stand. The operands are promoted to 16
  bits and the result is narrowed to the \<open>unsigned char\<close> cell.
\<close>

definition fill_general :: "sketch \<Rightarrow> sketch" where
  "fill_general s =
     (let ms = (ucast (maxSpeed s) :: uword);
          d0 = (data s)(0 := 0x60);
          d1 = d0(1 := ucast (0x80 OR (drop_bit 3 (speed s) AND 0x7f)));
          d2 = d1(2 := ucast (0x80 OR (drop_bit 3 (direction s) AND 0x7f)));
          d3 = d2(3 := ucast (0x80 OR (drop_bit 1 ms AND 0x7f)));
          d4 = d3(4 := ucast (0x80 OR push_bit 6 (ms AND 0x1)
                              OR push_bit 3 (speed s AND 0x7) OR (direction s AND 0x7)));
          d5 = d4(5 := 128);
          d6 = d5(6 := 132);
          d7 = d6(7 := 128);
          sum = sum_loop d7 8;
          d8 = d7(8 := 255 - (sum AND 127));
          d9 = d8(9 := 15)
      in s\<lparr>data := d9\<rparr>)"

definition sharkOnMode :: "cycle_input \<Rightarrow> sketch \<Rightarrow> sketch \<times> byte list" where
  "sharkOnMode inp s =
     (let s1 = read_direction (directionPulse inp) s;
          s2 = read_speed (speedPulse inp) s1;
          s3 = s2\<lparr>maxSpeed := 255\<rparr>;
          s4 = fill_general s3
      in (s4, serial_write (data s4) 10))"

subsection \<open>loop\<close>

text \<open>
  One pass of \<open>loop\<close>: the new globals and the bytes written to the bus, in
  order. The pin writes and delays have no effect on either.
\<close>

definition loop :: "cycle_input \<Rightarrow> sketch \<Rightarrow> sketch \<times> byte list" where
  "loop inp s =
     (let s0 = s\<lparr>onOffVal := ucast (onOffPulse inp)\<rparr>;
          (s1, out1) =
            (if onOffVal s0 < 1000 \<and> onOffState s0
             then (s0\<lparr>onOffState := \<not> onOffState s0\<rparr>, [])
             else if onOffVal s0 > 1500 \<and> \<not> onOffState s0
             then sharkStartup (s0\<lparr>onOffState := \<not> onOffState s0\<rparr>)
             else if onOffVal s0 < 500
             then (s0\<lparr>onOffState := False\<rparr>, [])
             else (s0, []))
      in if onOffState s1
         then (let (s2, out2) = sharkOnMode inp s1 in (s2, out1 @ out2))
         else (s1, out1))"

subsection \<open>Vocabulary of the claims\<close>

text \<open>
  The bytes written in one call of \<open>sharkStartup\<close> or \<open>sharkOnMode\<close> are one
  packet followed by the end-of-turn byte. A packet is its start byte, its data
  bytes and its checksum byte, in this order.
\<close>

definition TransmitFinished :: byte where
  "TransmitFinished = 0x0F"

definition sent_packet :: "byte list \<Rightarrow> byte list" where
  "sent_packet out = butlast out"

definition start_byte :: "byte list \<Rightarrow> byte" where
  "start_byte p = hd p"

definition data_bytes :: "byte list \<Rightarrow> byte list" where
  "data_bytes p = butlast (tl p)"

definition checksum_byte :: "byte list \<Rightarrow> byte" where
  "checksum_byte p = last p"

text \<open>
  The checksum as the protocol document and the specification word it:
  0x7F minus the least-significant 7 bits of the sum of the start byte and all
  data bytes, the sum taken over the numbers, without any narrowing.
\<close>

definition spec_checksum :: "byte list \<Rightarrow> nat" where
  "spec_checksum p = 0x7F - sum_list (map unat (start_byte p # data_bytes p)) mod 128"

text \<open>
  The joystick and speed-pot readings as a receiver puts them together again
  from the bytes of a general packet (index 0 is the start byte): the 7 most
  significant bits from bytes 1 to 3, the least significant bits from byte 4
  (bit 6 speed pot, bits 5-3 speed, bits 2-0 direction).
\<close>

definition joined_speed :: "byte list \<Rightarrow> uword" where
  "joined_speed p = push_bit 3 (ucast (p ! 1 AND 0x7F)) OR ucast (drop_bit 3 (p ! 4) AND 0x7)"

definition joined_direction :: "byte list \<Rightarrow> uword" where
  "joined_direction p = push_bit 3 (ucast (p ! 2 AND 0x7F)) OR ucast (p ! 4 AND 0x7)"

definition joined_speed_pot :: "byte list \<Rightarrow> byte" where
  "joined_speed_pot p = push_bit 1 (p ! 3 AND 0x7F) OR (drop_bit 6 (p ! 4) AND 0x1)"

text \<open>
  The deadband stage that \<open>read_direction\<close> and \<open>read_speed\<close> both apply to
  the mapped pot value, named for the proofs.
\<close>

definition deadband_of :: "uword \<Rightarrow> uword" where
  "deadband_of v =
     (if v > 512 + Deadband
      then ucast (map_long (ucast v) (scast (512 + Deadband)) 1024 513 1023)
      else if v < 512 - Deadband
      then ucast (map_long (ucast v) 0 (scast (512 - Deadband)) 1 511)
      else 512)"

text \<open>
  The bytes of a turn that \<open>sharkOnMode\<close> writes do not depend on the globals it
  starts from (shown below), so they can be named by the input alone.
\<close>

definition general_turn :: "cycle_input \<Rightarrow> byte list" where
  "general_turn inp = snd (sharkOnMode inp init_sketch)"

text \<open>
  An input for one pass of \<open>loop\<close>: the on/off channel asks for "on", both
  sticks are centred, and nothing arrives on the bus.
\<close>

definition switch_on_input :: cycle_input where
  "switch_on_input =
     \<lparr> onOffPulse = 2000, directionPulse = 1500, speedPulse = 1500, busRx = [] \<rparr>"

text \<open>
  Modelled from the spec: the power module and its packets are not part of the
  sketch. This recognises a turn of the power module that carries its general
  packet (type 1 with seven data bytes, so the start byte is 0x61), correctly
  framed and checksummed and followed by the end-of-turn byte, with the
  "power down now" flag set. The protocol document kept with the sketch puts
  that flag in bit 4 of the second data byte.
\<close>

definition spm_power_down_now :: "byte list \<Rightarrow> bool" where
  "spm_power_down_now rx \<longleftrightarrow>
     length rx = 10 \<and> start_byte (sent_packet rx) = 0x61 \<and>
     list_all (\<lambda>b. bit b 7) (tl (sent_packet rx)) \<and>
     unat (checksum_byte (sent_packet rx)) = 128 + spec_checksum (sent_packet rx) \<and>
     last rx = TransmitFinished \<and>
     bit (rx ! 2) 4"

text \<open>The same input as \<open>switch_on_input\<close>, with such a turn on the bus.\<close>

definition power_down_input :: cycle_input where
  "power_down_input =
     \<lparr> onOffPulse = 2000, directionPulse = 1500, speedPulse = 1500,
       busRx = [0x61, 0x92, 0x90, 0x80, 0x80, 0x80, 0x80, 0x80, 0xFC, 0x0F] \<rparr>"

section \<open>Auxiliary facts\<close>

subsection \<open>The loops\<close>

lemma sum_loop_0: "sum_loop d 0 = 0"
  by (simp add: sum_loop_def)

lemma sum_loop_Suc: "sum_loop d (Suc n) = sum_loop d n + (d n AND 0x7f)"
  by (simp add: sum_loop_def)

lemma unat_and_127: "unat ((b::byte) AND 0x7f) = unat b mod 128"
proof -
  have "(b AND 0x7f) = take_bit 7 b"
    by (simp add: take_bit_eq_mask mask_eq_exp_minus_1)
  then show ?thesis
    by (simp add: take_bit_eq_mod unat_mod)
qed

lemma unat_add_mod128: "unat ((a::byte) + b) mod 128 = (unat a + unat b) mod 128"
proof -
  have "unat (a + b) = (unat a + unat b) mod 256"
    by (simp add: unat_word_ariths)
  moreover have "((unat a + unat b) mod 256) mod 128 = (unat a + unat b) mod 128"
    by (rule mod_mod_cancel) simp
  ultimately show ?thesis by simp
qed

text \<open>
  Masking every summand and narrowing the running sum to a byte loses nothing
  of the low seven bits of the sum.
\<close>

lemma sum_loop_mod128:
  "unat (sum_loop d n) mod 128 = (\<Sum>i<n. unat (d i)) mod 128"
proof (induction n)
  case 0
  show ?case by (simp add: sum_loop_0)
next
  case (Suc n)
  have "unat (sum_loop d (Suc n)) mod 128
        = (unat (sum_loop d n) mod 128 + unat (d n)) mod 128"
    by (simp add: sum_loop_Suc unat_add_mod128 unat_and_127 mod_simps)
  also have "\<dots> = ((\<Sum>i<n. unat (d i)) mod 128 + unat (d n)) mod 128"
    by (simp only: Suc.IH)
  also have "\<dots> = (\<Sum>i<Suc n. unat (d i)) mod 128"
    by (simp add: mod_simps)
  finally show ?case .
qed

lemma serial_write_sum: "sum_list (map unat (serial_write d n)) = (\<Sum>i<n. unat (d i))"
  by (induction n) (simp_all add: serial_write_def)

subsection \<open>The two packets\<close>

lemma serial_write_10: "serial_write d 10 = [d 0, d 1, d 2, d 3, d 4, d 5, d 6, d 7, d 8, d 9]"
  by (simp add: serial_write_def upt_rec eval_nat_numeral)

lemma serial_write_11: "serial_write d 11 = [d 0, d 1, d 2, d 3, d 4, d 5, d 6, d 7, d 8, d 9, d 10]"
  by (simp add: serial_write_def upt_rec eval_nat_numeral)

lemma sharkStartup_out:
  "snd (sharkStartup s) = [0x74, 130, 133, 130, 128, 136, 205, 160, 128, 141, 15]"
  by (simp add: sharkStartup_def serial_write_11 sum_loop_def upt_rec)

lemma fill_general_cells:
  "data (fill_general s) 0 = 0x60"
  "data (fill_general s) 1 = ucast (0x80 OR (drop_bit 3 (speed s) AND 0x7f))"
  "data (fill_general s) 2 = ucast (0x80 OR (drop_bit 3 (direction s) AND 0x7f))"
  "data (fill_general s) 3 = ucast (0x80 OR (drop_bit 1 (ucast (maxSpeed s) :: uword) AND 0x7f))"
  "data (fill_general s) 4 = ucast (0x80 OR push_bit 6 ((ucast (maxSpeed s) :: uword) AND 0x1)
                              OR push_bit 3 (speed s AND 0x7) OR (direction s AND 0x7))"
  "data (fill_general s) 5 = 128"
  "data (fill_general s) 6 = 132"
  "data (fill_general s) 7 = 128"
  "data (fill_general s) 9 = 15"
  by (simp_all add: fill_general_def Let_def)

lemma fill_general_checksum:
  "data (fill_general s) 8 = 255 - (sum_loop (data (fill_general s)) 8 AND 127)"
  by (simp add: fill_general_def Let_def sum_loop_def upt_rec)

lemma byte_255_minus: "(255::byte) - y = NOT y"
  by (simp add: not_eq_complement)

lemma unat_255_minus_and: "unat ((255::byte) - (y AND 127)) = 128 + (127 - unat y mod 128)"
proof -
  have le: "y AND 127 \<le> 255" by (rule order_trans [OF word_and_le1]) simp
  have "unat ((255::byte) - (y AND 127)) = 255 - unat (y AND 127)"
    using le by (simp add: unat_sub)
  also have "\<dots> = 255 - unat y mod 128" by (simp add: unat_and_127)
  also have "\<dots> = 128 + (127 - unat y mod 128)"
  proof -
    have "unat y mod 128 < 128" by simp
    then show ?thesis by linarith
  qed
  finally show ?thesis .
qed

lemma sharkOnMode_out:
  "snd (sharkOnMode inp s) =
     serial_write (data (fill_general
        ((read_speed (speedPulse inp) (read_direction (directionPulse inp) s))\<lparr>maxSpeed := 255\<rparr>))) 10"
  by (simp add: sharkOnMode_def Let_def)

lemma general_checksum_value:
  "unat (data (fill_general s) 8) =
     128 + (0x7F - (\<Sum>i<8. unat (data (fill_general s) i)) mod 128)"
  by (simp only: fill_general_checksum unat_255_minus_and sum_loop_mod128)

lemma general_packet_checksum:
  fixes s :: sketch
  defines "p \<equiv> sent_packet (serial_write (data (fill_general s)) 10)"
  shows "unat (checksum_byte p) = 128 + spec_checksum p"
proof -
  let ?d = "data (fill_general s)"
  have p: "p = serial_write ?d 8 @ [?d 8]"
    by (simp add: p_def sent_packet_def serial_write_10 serial_write_def upt_rec eval_nat_numeral)
  have cs: "checksum_byte p = ?d 8"
    by (simp add: p checksum_byte_def)
  have "start_byte p # data_bytes p = serial_write ?d 8"
    by (simp add: p start_byte_def data_bytes_def serial_write_def upt_rec eval_nat_numeral)
  then have "spec_checksum p = 0x7F - (\<Sum>i<8. unat (?d i)) mod 128"
    by (simp only: spec_checksum_def serial_write_sum)
  with cs show ?thesis
    by (simp only: general_checksum_value)
qed

lemma general_out:
  "serial_write (data (fill_general s)) 10 =
     [0x60,
      ucast (0x80 OR (drop_bit 3 (speed s) AND 0x7f)),
      ucast (0x80 OR (drop_bit 3 (direction s) AND 0x7f)),
      ucast (0x80 OR (drop_bit 1 (ucast (maxSpeed s) :: uword) AND 0x7f)),
      ucast (0x80 OR push_bit 6 ((ucast (maxSpeed s) :: uword) AND 0x1)
                              OR push_bit 3 (speed s AND 0x7) OR (direction s AND 0x7)),
      128, 132, 128,
      255 - (sum_loop (data (fill_general s)) 8 AND 127),
      15]"
  unfolding serial_write_10
  by (simp only: fill_general_cells fill_general_checksum [symmetric])

lemma bit7_ucast_or: "bit (ucast ((0x80::uword) OR x) :: byte) 7"
  by (simp add: bit_simps)

lemma bit7_checksum: "bit ((255::byte) - (y AND 127)) 7"
  by (simp add: byte_255_minus bit_simps)

subsection \<open>Split fields\<close>

lemma bits_below_1024:
  fixes x :: uword
  assumes "x < 1024" and "bit x n"
  shows "n < 10"
proof -
  have "x < 2 ^ 10" using assms(1) by simp
  then have "x AND mask 10 = x" by (rule less_mask_eq)
  then have "bit (x AND mask 10) n" using assms(2) by simp
  then show ?thesis by (simp add: bit_simps)
qed

lemma mask7: "(0x7F::'a::len word) = mask 7"
  by (simp add: mask_eq_exp_minus_1)

lemma mask3: "(0x7::'a::len word) = mask 3"
  by (simp add: mask_eq_exp_minus_1)

lemma mask1: "(0x1::'a::len word) = mask 1"
  by (simp add: mask_eq_exp_minus_1)

lemma bit_128_int_iff: "bit (128::int) n \<longleftrightarrow> n = 7"
proof -
  have "(128::int) = 2 ^ 7" by simp
  then show ?thesis by (auto simp only: bit_exp_iff possible_bit_int)
qed

lemma speed_roundtrip:
  fixes sp dir :: uword and ms :: uword
  assumes "sp < 1024"
  shows "push_bit 3 (ucast ((ucast (0x80 OR (drop_bit 3 sp AND 0x7f)) :: byte) AND 0x7F))
          OR ucast (drop_bit 3 (ucast (0x80 OR push_bit 6 (ms AND 0x1)
                              OR push_bit 3 (sp AND 0x7) OR (dir AND 0x7)) :: byte) AND 0x7) = sp"
    (is "?l = sp")
proof (rule bit_eqI)
  fix n
  assume "possible_bit TYPE(uword) n"
  have hi: "bit sp n \<Longrightarrow> n < 10" by (rule bits_below_1024 [OF assms])
  show "bit ?l n = bit sp n"
  proof (cases "n < 3")
    case True
    then show ?thesis
      unfolding mask7 mask3 mask1
      by (simp add: bit_simps bit_128_int_iff)
  next
    case False
    then have 1: "3 + (n - 3) = n" by simp
    from False hi show ?thesis
      unfolding mask7 mask3 mask1
      by (simp add: bit_simps bit_128_int_iff 1) auto
  qed
qed


lemma direction_roundtrip:
  fixes sp dir :: uword and ms :: uword
  assumes "dir < 1024"
  shows "push_bit 3 (ucast ((ucast (0x80 OR (drop_bit 3 dir AND 0x7f)) :: byte) AND 0x7F))
          OR ucast ((ucast (0x80 OR push_bit 6 (ms AND 0x1)
                              OR push_bit 3 (sp AND 0x7) OR (dir AND 0x7)) :: byte) AND 0x7) = dir"
    (is "?l = dir")
proof (rule bit_eqI)
  fix n
  assume "possible_bit TYPE(uword) n"
  have hi: "bit dir n \<Longrightarrow> n < 10" by (rule bits_below_1024 [OF assms])
  show "bit ?l n = bit dir n"
  proof (cases "n < 3")
    case True
    then show ?thesis
      unfolding mask7 mask3 mask1
      by (simp add: bit_simps bit_128_int_iff)
  next
    case False
    then have 1: "3 + (n - 3) = n" by simp
    from False hi show ?thesis
      unfolding mask7 mask3 mask1
      by (simp add: bit_simps bit_128_int_iff 1) auto
  qed
qed

lemma speed_pot_roundtrip:
  fixes sp dir :: uword and m :: byte
  shows "push_bit 1 ((ucast (0x80 OR (drop_bit 1 (ucast m :: uword) AND 0x7f)) :: byte) AND 0x7F)
          OR (drop_bit 6 (ucast (0x80 OR push_bit 6 ((ucast m :: uword) AND 0x1)
                              OR push_bit 3 (sp AND 0x7) OR (dir AND 0x7)) :: byte) AND 0x1) = m"
    (is "?l = m")
proof (rule bit_eqI)
  fix n
  assume "possible_bit TYPE(byte) n"
  then have n: "n < 8" by (simp add: possible_bit_word)
  have p: "push_bit 1 x = push_bit (Suc 0) x" for x :: byte by simp
  show "bit ?l n = bit m n"
  proof (cases "n = 0")
    case True
    then show ?thesis
      unfolding mask7 mask3 mask1 p
      by (simp add: bit_simps bit_128_int_iff del: push_bit_Suc push_bit_of_Suc_0)
  next
    case False
    then have 1: "Suc (n - Suc 0) = n" by simp
    from False n show ?thesis
      unfolding mask7 mask3 mask1 p
      by (simp add: bit_simps bit_128_int_iff 1 del: push_bit_Suc push_bit_of_Suc_0) auto
  qed
qed

subsection \<open>The map calls\<close>

lemma constrain_bounds:
  "low \<le> high \<Longrightarrow> low \<le> constrain amt low high \<and> constrain amt low high \<le> high"
  by (auto simp add: constrain_def)

lemma sdiv_nonneg: "0 \<le> a \<Longrightarrow> 0 < b \<Longrightarrow> (a::int) sdiv b = a div b"
  by (cases "a = 0") (simp_all add: signed_divide_int_def)

lemma sdiv_nonpos: "a \<le> 0 \<Longrightarrow> 0 < b \<Longrightarrow> (a::int) sdiv b = - ((- a) div b)"
  by (cases "a = 0") (simp_all add: signed_divide_int_def)

lemma sint_long_of_int:
  "- (2 ^ 31) \<le> m \<Longrightarrow> m < 2 ^ 31 \<Longrightarrow> sint (word_of_int m :: long) = m"
  by (simp add: sint_sbintrunc' signed_take_bit_int_eq_self)

lemma map_long_int:
  assumes "- (2 ^ 31) \<le> (x - a) * (d - c)" "(x - a) * (d - c) < 2 ^ 31"
    and "- (2 ^ 31) \<le> b - a" "b - a < 2 ^ 31"
  shows "map_long (word_of_int x) (word_of_int a) (word_of_int b) (word_of_int c) (word_of_int d)
         = word_of_int ((x - a) * (d - c) sdiv (b - a) + c)"
proof -
  have n: "(word_of_int x - word_of_int a) * (word_of_int d - word_of_int c)
           = (word_of_int ((x - a) * (d - c)) :: long)"
    by simp
  have m: "word_of_int b - word_of_int a = (word_of_int (b - a) :: long)"
    by simp
  show ?thesis
    unfolding map_long_def long_div_def n m
    by (simp only: sint_long_of_int [OF assms(1,2)] sint_long_of_int [OF assms(3,4)] of_int_add)
qed

lemma map_long_uword:
  fixes v :: uword and a b c d q :: int
  assumes q: "(uint v - a) * (d - c) sdiv (b - a) = q"
    and "- (2 ^ 31) \<le> (uint v - a) * (d - c)" "(uint v - a) * (d - c) < 2 ^ 31"
    and "- (2 ^ 31) \<le> b - a" "b - a < 2 ^ 31"
    and "0 \<le> q + c" "q + c < 65536"
  shows "uint (ucast (map_long (ucast v) (word_of_int a) (word_of_int b)
                         (word_of_int c) (word_of_int d)) :: uword) = q + c"
proof -
  define m where "m = q + c"
  have m: "0 \<le> m" "m < 65536"
    using assms(6,7) by (simp_all only: m_def)
  have "ucast (map_long (ucast v) (word_of_int a) (word_of_int b)
                  (word_of_int c) (word_of_int d))
        = (word_of_int m :: uword)"
    unfolding ucast_eq [of v] map_long_int [OF assms(2-5)] q m_def [symmetric]
    by (rule ucast_down_wi) (simp add: is_down)
  then have "uint (ucast (map_long (ucast v) (word_of_int a) (word_of_int b)
                  (word_of_int c) (word_of_int d)) :: uword) = uint (word_of_int m :: uword)"
    by (rule arg_cong)
  also have "\<dots> = m" using m by (simp add: uint_word_of_int)
  finally show ?thesis by (simp only: m_def)
qed

lemma div_bounds:
  "0 \<le> (x::int) \<Longrightarrow> x \<le> u \<Longrightarrow> 0 < b \<Longrightarrow> 0 \<le> x div b \<and> x div b \<le> u div b"
  by (simp add: zdiv_mono1 pos_imp_zdiv_nonneg_iff)

text \<open>The two calls of \<open>map\<close> in the deadband stage, which both channel blocks repeat.\<close>

lemma map_forward:
  fixes v :: uword
  assumes "532 < uint v" "uint v \<le> 1023"
  shows "1 \<le> uint (ucast (map_long (ucast v) 532 1024 513 1023) :: uword) \<and>
         uint (ucast (map_long (ucast v) 532 1024 513 1023) :: uword) \<le> 1023"
proof -
  define q where "q = (uint v - 532) * (1023 - 513) div (1024 - 532)"
  have "0 \<le> q \<and> q \<le> 250410 div (1024 - 532)"
    unfolding q_def by (rule div_bounds) (use assms in simp_all)
  then have qb: "0 \<le> q" "q \<le> 508" by simp_all
  have e: "(uint v - 532) * (1023 - 513) sdiv (1024 - 532) = q"
    unfolding q_def by (rule sdiv_nonneg) (use assms in simp_all)
  have "uint (ucast (map_long (ucast v) (word_of_int 532) (word_of_int 1024)
                         (word_of_int 513) (word_of_int 1023)) :: uword) = q + 513"
    by (rule map_long_uword [OF e]) (use assms qb in simp_all)
  then have "uint (ucast (map_long (ucast v) 532 1024 513 1023) :: uword) = q + 513"
    by simp
  with qb show ?thesis by simp
qed

lemma map_reverse:
  fixes v :: uword
  assumes "uint v < 492"
  shows "1 \<le> uint (ucast (map_long (ucast v) 0 492 1 511) :: uword) \<and>
         uint (ucast (map_long (ucast v) 0 492 1 511) :: uword) \<le> 1023"
proof -
  define q where "q = (uint v - 0) * (511 - 1) div (492 - 0)"
  have "0 \<le> q \<and> q \<le> 250410 div (492 - 0)"
    unfolding q_def by (rule div_bounds) (use assms in simp_all)
  then have qb: "0 \<le> q" "q \<le> 508" by simp_all
  have e: "(uint v - 0) * (511 - 1) sdiv (492 - 0) = q"
    unfolding q_def by (rule sdiv_nonneg) (use assms in simp_all)
  have n0: "0 \<le> (uint v - 0) * (511 - 1)" by simp
  have h1: "- (2 ^ 31) \<le> (uint v - 0) * (511 - 1)"
    by (rule order_trans [OF _ n0]) simp
  have "uint (ucast (map_long (ucast v) (word_of_int 0) (word_of_int 492)
                         (word_of_int 1) (word_of_int 511)) :: uword) = q + 1"
    by (rule map_long_uword [OF e h1]) (use assms qb in simp_all)
  then have "uint (ucast (map_long (ucast v) 0 492 1 511) :: uword) = q + 1"
    by simp
  with qb show ?thesis by simp
qed

lemma deadband_stage:
  fixes v :: uword
  assumes "v \<le> 1023"
  defines "r \<equiv> (if v > 512 + Deadband
                 then ucast (map_long (ucast v) (scast (512 + Deadband)) 1024 513 1023)
                 else if v < 512 - Deadband
                 then ucast (map_long (ucast v) 0 (scast (512 - Deadband)) 1 511)
                 else (512::uword))"
  shows "1 \<le> r \<and> r \<le> 1023"
proof -
  have v: "uint v \<le> 1023"
    using assms(1) by (simp add: word_le_def)
  consider (hi) "v > 532" | (lo) "\<not> v > 532" "v < 492" | (mid) "\<not> v > 532" "\<not> v < 492"
    by blast
  then show ?thesis
  proof cases
    case hi
    then have h: "532 < uint v" by (simp add: word_less_alt)
    have r: "r = ucast (map_long (ucast v) 532 1024 513 1023)"
      using hi by (simp add: r_def Deadband_def)
    from map_forward [OF h v] show ?thesis
      unfolding r by (simp add: word_le_def)
  next
    case lo
    then have h: "uint v < 492" by (simp add: word_less_alt)
    have r: "r = ucast (map_long (ucast v) 0 492 1 511)"
      using lo by (simp add: r_def Deadband_def)
    from map_reverse [OF h] show ?thesis
      unfolding r by (simp add: word_le_def)
  next
    case mid
    then have "r = 512" by (simp add: r_def Deadband_def)
    then show ?thesis by simp
  qed
qed


lemma direction_stage:
  fixes c :: uword
  assumes "1100 \<le> c" "c \<le> 1900"
  shows "ucast (map_long (ucast c) 1000 2000 1 1023) \<le> (1023::uword)"
proof -
  have k: "1100 \<le> uint c" "uint c \<le> 1900"
    using assms by (simp_all add: word_le_def)
  define q where "q = (uint c - 1000) * (1023 - 1) div (2000 - 1000)"
  have "0 \<le> q \<and> q \<le> 919800 div (2000 - 1000)"
    unfolding q_def by (rule div_bounds) (use k in simp_all)
  then have qb: "0 \<le> q" "q \<le> 919" by simp_all
  have e: "(uint c - 1000) * (1023 - 1) sdiv (2000 - 1000) = q"
    unfolding q_def by (rule sdiv_nonneg) (use k in simp_all)
  have "uint (ucast (map_long (ucast c) (word_of_int 1000) (word_of_int 2000)
                         (word_of_int 1) (word_of_int 1023)) :: uword) = q + 1"
    by (rule map_long_uword [OF e]) (use k qb in simp_all)
  then have "uint (ucast (map_long (ucast c) 1000 2000 1 1023) :: uword) = q + 1"
    by simp
  with qb show ?thesis by (simp add: word_le_def)
qed

lemma speed_stage:
  fixes c :: uword
  assumes "1000 \<le> c" "c \<le> 2000"
  shows "ucast (map_long (ucast c) 1000 2000 1023 1) \<le> (1023::uword)"
proof -
  have k: "1000 \<le> uint c" "uint c \<le> 2000"
    using assms by (simp_all add: word_le_def)
  define q where "q = (- ((uint c - 1000) * (1 - 1023))) div (2000 - 1000)"
  have "0 \<le> q \<and> q \<le> 1022000 div (2000 - 1000)"
    unfolding q_def by (rule div_bounds) (use k in simp_all)
  then have qb: "0 \<le> q" "q \<le> 1022" by simp_all
  have e: "(uint c - 1000) * (1 - 1023) sdiv (2000 - 1000) = - q"
    unfolding q_def by (rule sdiv_nonpos) (use k in simp_all)
  have "uint (ucast (map_long (ucast c) (word_of_int 1000) (word_of_int 2000)
                         (word_of_int 1023) (word_of_int 1)) :: uword) = - q + 1023"
    by (rule map_long_uword [OF e]) (use k qb in simp_all)
  then have "uint (ucast (map_long (ucast c) 1000 2000 1023 1) :: uword) = - q + 1023"
    by simp
  with qb show ?thesis by (simp add: word_le_def)
qed

subsection \<open>The channel blocks\<close>

lemma read_direction_fields:
  "directionPotVal (read_direction p s)
     = ucast (map_long (ucast (constrain (ucast p) 1100 1900)) 1000 2000 1 1023)"
  "direction (read_direction p s) = deadband_of (directionPotVal (read_direction p s))"
  "speed (read_direction p s) = speed s"
  "speedPotVal (read_direction p s) = speedPotVal s"
  by (simp_all add: read_direction_def Let_def deadband_of_def)

lemma read_speed_fields:
  "speedPotVal (read_speed p s)
     = ucast (map_long (ucast (constrain (ucast p) 1000 2000)) 1000 2000 1023 1)"
  "speed (read_speed p s) = deadband_of (speedPotVal (read_speed p s))"
  "direction (read_speed p s) = direction s"
  "directionPotVal (read_speed p s) = directionPotVal s"
  by (simp_all add: read_speed_def Let_def deadband_of_def)

lemma fill_general_fields:
  "speed (fill_general s) = speed s"
  "direction (fill_general s) = direction s"
  "speedPotVal (fill_general s) = speedPotVal s"
  "directionPotVal (fill_general s) = directionPotVal s"
  "maxSpeed (fill_general s) = maxSpeed s"
  "onOffState (fill_general s) = onOffState s"
  by (simp_all add: fill_general_def Let_def)

lemma sharkOnMode_fields:
  "directionPotVal (fst (sharkOnMode inp s))
     = ucast (map_long (ucast (constrain (ucast (directionPulse inp)) 1100 1900)) 1000 2000 1 1023)"
  "speedPotVal (fst (sharkOnMode inp s))
     = ucast (map_long (ucast (constrain (ucast (speedPulse inp)) 1000 2000)) 1000 2000 1023 1)"
  "direction (fst (sharkOnMode inp s)) = deadband_of (directionPotVal (fst (sharkOnMode inp s)))"
  "speed (fst (sharkOnMode inp s)) = deadband_of (speedPotVal (fst (sharkOnMode inp s)))"
  "maxSpeed (fst (sharkOnMode inp s)) = 255"
  "onOffState (fst (sharkOnMode inp s)) = onOffState s"
  by (simp_all add: sharkOnMode_def Let_def fill_general_fields read_speed_fields
        read_direction_fields)
     (simp_all add: read_speed_def read_direction_def Let_def)

lemma deadband_of_range: "v \<le> 1023 \<Longrightarrow> 1 \<le> deadband_of v \<and> deadband_of v \<le> 1023"
  unfolding deadband_of_def by (rule deadband_stage)

lemma deadband_of_neutral:
  "512 - Deadband \<le> v \<Longrightarrow> v \<le> 512 + Deadband \<Longrightarrow> deadband_of v = 512"
  by (auto simp add: deadband_of_def Deadband_def)

lemma sharkOnMode_pot_range:
  "directionPotVal (fst (sharkOnMode inp s)) \<le> 1023"
  "speedPotVal (fst (sharkOnMode inp s)) \<le> 1023"
proof -
  have "(1100::uword) \<le> 1900" "(1000::uword) \<le> 2000" by simp_all
  note d = constrain_bounds [OF this(1)] and s = constrain_bounds [OF this(2)]
  show "directionPotVal (fst (sharkOnMode inp s)) \<le> 1023"
    unfolding sharkOnMode_fields using d by (intro direction_stage) simp_all
  show "speedPotVal (fst (sharkOnMode inp s)) \<le> 1023"
    unfolding sharkOnMode_fields using s by (intro speed_stage) simp_all
qed

lemma fill_general_joined:
  assumes "speed s < 1024" and "direction s < 1024"
  shows "joined_speed (serial_write (data (fill_general s)) 10) = speed s"
    and "joined_direction (serial_write (data (fill_general s)) 10) = direction s"
  unfolding general_out joined_speed_def joined_direction_def
  using speed_roundtrip [OF assms(1)] direction_roundtrip [OF assms(2)]
  by simp_all

lemma sharkOnMode_joined:
  "joined_speed (snd (sharkOnMode inp s)) = speed (fst (sharkOnMode inp s))"
  "joined_direction (snd (sharkOnMode inp s)) = direction (fst (sharkOnMode inp s))"
proof -
  define t where
    "t = (read_speed (speedPulse inp) (read_direction (directionPulse inp) s))\<lparr>maxSpeed := 255\<rparr>"
  have f: "fst (sharkOnMode inp s) = fill_general t"
    and o: "snd (sharkOnMode inp s) = serial_write (data (fill_general t)) 10"
    by (simp_all add: sharkOnMode_def Let_def t_def)
  have sp: "speed (fst (sharkOnMode inp s)) = speed t"
    and di: "direction (fst (sharkOnMode inp s)) = direction t"
    by (simp_all only: f fill_general_fields)
  have "speed (fst (sharkOnMode inp s)) \<le> 1023" "direction (fst (sharkOnMode inp s)) \<le> 1023"
    using deadband_of_range [OF sharkOnMode_pot_range(1), of inp s]
          deadband_of_range [OF sharkOnMode_pot_range(2), of inp s]
    by (simp_all add: sharkOnMode_fields(3,4))
  then have lt: "speed t < 1024" "direction t < 1024"
    unfolding sp di by (simp_all add: word_le_def word_less_alt)
  show "joined_speed (snd (sharkOnMode inp s)) = speed (fst (sharkOnMode inp s))"
    by (simp only: o sp fill_general_joined(1) [OF lt])
  show "joined_direction (snd (sharkOnMode inp s)) = direction (fst (sharkOnMode inp s))"
    by (simp only: o di fill_general_joined(2) [OF lt])
qed

subsection \<open>One pass of loop\<close>

lemma fill_general_cong:
  assumes "speed s = speed s'" "direction s = direction s'" "maxSpeed s = maxSpeed s'"
  shows "serial_write (data (fill_general s)) 10 = serial_write (data (fill_general s')) 10"
  unfolding serial_write_10
  by (simp add: fill_general_def Let_def sum_loop_def upt_rec assms)

lemma sharkOnMode_out_indep: "snd (sharkOnMode inp s) = snd (sharkOnMode inp s')"
  unfolding sharkOnMode_out
  by (rule fill_general_cong)
     (simp_all add: read_speed_fields read_direction_fields)

lemma sharkOnMode_turn: "snd (sharkOnMode inp s) = general_turn inp"
  unfolding general_turn_def by (rule sharkOnMode_out_indep)

lemma sharkOnMode_ignores_bus: "sharkOnMode (inp\<lparr>busRx := rx\<rparr>) s = sharkOnMode inp s"
  by (simp add: sharkOnMode_def)

lemma loop_ignores_bus: "loop (inp\<lparr>busRx := rx\<rparr>) s = loop inp s"
  by (simp add: loop_def Let_def split_beta sharkOnMode_ignores_bus)

lemma sharkStartup_onOffState: "onOffState (fst (sharkStartup s)) = onOffState s"
  by (simp add: sharkStartup_def Let_def)

lemma uword_thresholds:
  fixes p :: uword
  shows "p < 500 \<Longrightarrow> p < 1000" and "1500 < p \<Longrightarrow> \<not> p < 1000" and "1500 < p \<Longrightarrow> \<not> p < 500"
  by (simp_all add: word_less_alt)

lemma loop_out:
  "snd (loop inp s) =
     (if onOffState s
      then (if (ucast (onOffPulse inp) :: uword) < 1000 then [] else general_turn inp)
      else (if 1500 < (ucast (onOffPulse inp) :: uword)
            then snd (sharkStartup s) @ general_turn inp else []))"
proof -
  have j: "snd (sharkStartup t) = snd (sharkStartup s)" for t
    by (simp only: sharkStartup_out)
  consider (a) "onOffState s" "(ucast (onOffPulse inp) :: uword) < 1000"
    | (b) "onOffState s" "\<not> (ucast (onOffPulse inp) :: uword) < 1000"
    | (c) "\<not> onOffState s" "1500 < (ucast (onOffPulse inp) :: uword)"
    | (d) "\<not> onOffState s" "\<not> 1500 < (ucast (onOffPulse inp) :: uword)"
    by blast
  then show ?thesis
  proof cases
    case a
    then show ?thesis by (simp add: loop_def Let_def)
  next
    case b
    then show ?thesis
      using uword_thresholds(1) [of "ucast (onOffPulse inp)"]
      by (auto simp add: loop_def Let_def split_beta sharkOnMode_turn)
  next
    case c
    then show ?thesis
      using uword_thresholds(2) [of "ucast (onOffPulse inp)"]
      by (simp add: loop_def Let_def split_beta sharkOnMode_turn sharkStartup_onOffState
            j [of "s\<lparr>onOffVal := ucast (onOffPulse inp), onOffState := True\<rparr>"])
  next
    case d
    then show ?thesis by (simp add: loop_def Let_def)
  qed
qed

lemma loop_state:
  "onOffState (fst (loop inp s)) =
     (if onOffState s then \<not> (ucast (onOffPulse inp) :: uword) < 1000
      else 1500 < (ucast (onOffPulse inp) :: uword))"
  using uword_thresholds [of "ucast (onOffPulse inp)"]
  by (auto simp add: loop_def Let_def split_beta sharkStartup_onOffState sharkOnMode_fields)

section \<open>The claims\<close>

subsection \<open>Checksum\<close>

text \<open>
  C1 as stated: the checksum byte after the data bytes equals 0x7F minus the
  least-significant 7 bits of the sum of the start byte and all data bytes.
  The power-up packet refutes the equality: the formula gives 13 for it, the
  byte that \<open>sharkStartup\<close> writes is 141 (the source notes
  "Checksum OK = (141)").
\<close>

theorem startup_checksum_differs_from_formula:
  "unat (checksum_byte (sent_packet (snd (sharkStartup init_sketch)))) = 141 \<and>
   spec_checksum (sent_packet (snd (sharkStartup init_sketch))) = 13 \<and>
   unat (checksum_byte (sent_packet (snd (sharkStartup init_sketch))))
     \<noteq> spec_checksum (sent_packet (snd (sharkStartup init_sketch)))"
  by (simp add: sharkStartup_out sent_packet_def checksum_byte_def spec_checksum_def
        start_byte_def data_bytes_def)

text \<open>
  C1, amended: in both packets the checksum byte is that value with bit 7 set,
  that is 0x80 plus 0x7F minus the least-significant 7 bits of the sum of the
  start byte and all data bytes. The code sums the bytes masked to 7 bits in a
  byte that wraps; neither changes the low 7 bits of the sum.
\<close>

theorem checksum_byte_is_formula_with_marker:
  "unat (checksum_byte (sent_packet (snd (sharkStartup s))))
     = 128 + spec_checksum (sent_packet (snd (sharkStartup s))) \<and>
   unat (checksum_byte (sent_packet (snd (sharkOnMode inp s))))
     = 128 + spec_checksum (sent_packet (snd (sharkOnMode inp s)))"
proof
  show "unat (checksum_byte (sent_packet (snd (sharkStartup s))))
     = 128 + spec_checksum (sent_packet (snd (sharkStartup s)))"
    by (simp add: sharkStartup_out sent_packet_def checksum_byte_def spec_checksum_def
        start_byte_def data_bytes_def)
  show "unat (checksum_byte (sent_packet (snd (sharkOnMode inp s))))
     = 128 + spec_checksum (sent_packet (snd (sharkOnMode inp s)))"
    by (simp only: sharkOnMode_out general_packet_checksum)
qed

subsection \<open>Start byte and framing\<close>

text \<open>
  C2: the start byte of each transmitted packet has bit 7 clear, the packet's
  type in its low 4 bits and the number of data bytes minus one in bits 6-4:
  0x60 with 7 data bytes of type 0 for the general packet, 0x74 with 8 data
  bytes of type 4 for the power-up packet.
\<close>

theorem start_byte_layout:
  "start_byte (sent_packet (snd (sharkOnMode inp s))) = 0x60 \<and>
   \<not> bit (start_byte (sent_packet (snd (sharkOnMode inp s)))) 7 \<and>
   start_byte (sent_packet (snd (sharkOnMode inp s))) AND 0x0F = 0 \<and>
   length (data_bytes (sent_packet (snd (sharkOnMode inp s)))) = 7 \<and>
   unat (drop_bit 4 (start_byte (sent_packet (snd (sharkOnMode inp s)))) AND 7)
     = length (data_bytes (sent_packet (snd (sharkOnMode inp s)))) - 1 \<and>
   start_byte (sent_packet (snd (sharkStartup s))) = 0x74 \<and>
   \<not> bit (start_byte (sent_packet (snd (sharkStartup s)))) 7 \<and>
   start_byte (sent_packet (snd (sharkStartup s))) AND 0x0F = 4 \<and>
   length (data_bytes (sent_packet (snd (sharkStartup s)))) = 8 \<and>
   unat (drop_bit 4 (start_byte (sent_packet (snd (sharkStartup s)))) AND 7)
     = length (data_bytes (sent_packet (snd (sharkStartup s)))) - 1"
  unfolding sharkOnMode_out general_out sharkStartup_out
  by (simp add: sent_packet_def start_byte_def data_bytes_def)

text \<open>
  C3: every byte of a transmitted packet after the start byte, the data bytes
  and the checksum byte, has bit 7 set, whatever the pulse widths read and
  whatever the globals held before.
\<close>

theorem framing_bit_set_after_start:
  "list_all (\<lambda>b. bit b 7) (tl (sent_packet (snd (sharkOnMode inp s)))) \<and>
   list_all (\<lambda>b. bit b 7) (tl (sent_packet (snd (sharkStartup s))))"
  unfolding sharkOnMode_out general_out sharkStartup_out
  by (simp add: sent_packet_def bit7_ucast_or bit7_checksum)

text \<open>
  C6: each turn ends with the single byte 0x0F, written right after the
  packet's checksum byte and followed by nothing; whatever one pass of \<open>loop\<close>
  writes, if it writes at all, ends with that byte.
\<close>

theorem turn_ends_with_TransmitFinished:
  "snd (sharkStartup s) = sent_packet (snd (sharkStartup s)) @ [TransmitFinished] \<and>
   snd (sharkOnMode inp s) = sent_packet (snd (sharkOnMode inp s)) @ [TransmitFinished] \<and>
   TransmitFinished = 0x0F \<and>
   (snd (loop inp s) = [] \<or> last (snd (loop inp s)) = TransmitFinished)"
proof -
  have a: "snd (sharkStartup s) = sent_packet (snd (sharkStartup s)) @ [TransmitFinished]"
    unfolding sharkStartup_out by (simp add: sent_packet_def TransmitFinished_def)
  have b: "snd (sharkOnMode inp s) = sent_packet (snd (sharkOnMode inp s)) @ [TransmitFinished]"
    unfolding sharkOnMode_out general_out by (simp add: sent_packet_def TransmitFinished_def)
  have lb: "last (general_turn inp) = TransmitFinished" "general_turn inp \<noteq> []"
    unfolding sharkOnMode_turn [of inp s, symmetric] by (subst b, simp)+
  have "snd (loop inp s) = [] \<or> last (snd (loop inp s)) = TransmitFinished"
    unfolding loop_out using lb by simp
  with a b show ?thesis by (simp add: TransmitFinished_def)
qed

subsection \<open>Power-up and power-down\<close>

text \<open>
  C5 as stated: until a correctly checksummed power-up packet of the power
  module is received, every cycle transmits the power-up packet, and general
  packets start only upon that receipt. Two passes of \<open>loop\<close> with the on/off
  channel asking for "on" and nothing at all arriving on the bus refute it: the
  first pass writes the power-up turn and a general turn right behind it, the
  second pass writes a general turn only.
\<close>

theorem power_up_sent_once_without_reply:
  "busRx switch_on_input = [] \<and>
   snd (loop switch_on_input init_sketch)
     = [0x74, 130, 133, 130, 128, 136, 205, 160, 128, 141, 15,
        0x60, 192, 192, 255, 192, 128, 132, 128, 220, 15] \<and>
   snd (loop switch_on_input (fst (loop switch_on_input init_sketch)))
     = [0x60, 192, 192, 255, 192, 128, 132, 128, 220, 15]"
proof (intro conjI)
  show "busRx switch_on_input = []"
    by (simp add: switch_on_input_def)
  show "snd (loop switch_on_input init_sketch)
     = [0x74, 130, 133, 130, 128, 136, 205, 160, 128, 141, 15,
        0x60, 192, 192, 255, 192, 128, 132, 128, 220, 15]"
    by code_simp
  show "snd (loop switch_on_input (fst (loop switch_on_input init_sketch)))
     = [0x60, 192, 192, 255, 192, 128, 132, 128, 220, 15]"
    by code_simp
qed

text \<open>
  C5, amended: the sketch writes its power-up packet and the end-of-turn byte
  once, in the pass of \<open>loop\<close> that finds it off while the on/off pulse is above
  1500, and writes a general turn in that same pass; in every pass that finds
  it on and the pulse not below 1000 it writes a general turn only; otherwise
  it writes nothing. What arrives on the bus changes neither the bytes written
  nor the globals.
\<close>

theorem loop_transmissions:
  "snd (loop inp s) =
     (if onOffState s
      then (if (ucast (onOffPulse inp) :: uword) < 1000 then [] else snd (sharkOnMode inp s))
      else (if 1500 < (ucast (onOffPulse inp) :: uword)
            then snd (sharkStartup s) @ snd (sharkOnMode inp s) else [])) \<and>
   onOffState (fst (loop inp s)) =
     (if onOffState s then \<not> (ucast (onOffPulse inp) :: uword) < 1000
      else 1500 < (ucast (onOffPulse inp) :: uword)) \<and>
   loop (inp\<lparr>busRx := rx\<rparr>) s = loop inp s"
  by (simp only: loop_out loop_state loop_ignores_bus sharkOnMode_turn simp_thms)

text \<open>
  C7 as stated: once the power module's "power down now" flag is observed, the
  next general packet of the remote carries the "power down / sleep confirm"
  flag (bit 0 of the byte at index 6). With a power-module turn carrying that
  flag on the bus during two passes of \<open>loop\<close>, the general packets of both
  passes have the confirm flag clear.
\<close>

theorem confirm_flag_clear_after_power_down_now:
  "spm_power_down_now (busRx power_down_input) \<and>
   snd (loop power_down_input (fst (loop switch_on_input init_sketch)))
     = [0x60, 192, 192, 255, 192, 128, 132, 128, 220, 15] \<and>
   \<not> bit (snd (loop power_down_input (fst (loop switch_on_input init_sketch))) ! 6) 0 \<and>
   \<not> bit (snd (loop power_down_input
              (fst (loop power_down_input (fst (loop switch_on_input init_sketch))))) ! 6) 0"
proof (intro conjI)
  show "spm_power_down_now (busRx power_down_input)"
    by (simp add: spm_power_down_now_def power_down_input_def sent_packet_def start_byte_def
        checksum_byte_def spec_checksum_def data_bytes_def TransmitFinished_def)
  show "snd (loop power_down_input (fst (loop switch_on_input init_sketch)))
     = [0x60, 192, 192, 255, 192, 128, 132, 128, 220, 15]"
    by code_simp
  show "\<not> bit (snd (loop power_down_input (fst (loop switch_on_input init_sketch))) ! 6) 0"
    by code_simp
  show "\<not> bit (snd (loop power_down_input
              (fst (loop power_down_input (fst (loop switch_on_input init_sketch))))) ! 6) 0"
    by code_simp
qed

text \<open>
  C7, amended: the confirm flag is clear in every general packet the sketch
  writes, whether or not a "power down now" flag is on the bus; the byte at
  index 6 is always 132, and nothing that arrives on the bus is looked at.
\<close>

theorem confirm_flag_always_clear:
  "\<not> bit (snd (sharkOnMode inp s) ! 6) 0 \<and>
   snd (sharkOnMode inp s) ! 6 = 132 \<and>
   sharkOnMode (inp\<lparr>busRx := rx\<rparr>) s = sharkOnMode inp s \<and>
   loop (inp\<lparr>busRx := rx\<rparr>) s = loop inp s"
  unfolding sharkOnMode_out general_out
  by (simp add: sharkOnMode_ignores_bus loop_ignores_bus)

subsection \<open>Joystick fields\<close>

text \<open>
  C8: for 10-bit speed and direction values and any 8-bit speed-pot value, the
  split into the bytes at index 1 to 4 of the general packet loses nothing:
  joining the 7 most significant bits of bytes 1 to 3 with the least
  significant bits in byte 4 gives the three values back.
\<close>

theorem split_fields_lossless:
  assumes "speed s < 1024" and "direction s < 1024"
  shows "joined_speed (serial_write (data (fill_general s)) 10) = speed s \<and>
         joined_direction (serial_write (data (fill_general s)) 10) = direction s \<and>
         joined_speed_pot (serial_write (data (fill_general s)) 10) = maxSpeed s"
  unfolding general_out joined_speed_def joined_direction_def joined_speed_pot_def
  using speed_roundtrip [OF assms(1)] direction_roundtrip [OF assms(2)] speed_pot_roundtrip
  by simp

theorem split_fields_lossless_witness:
  "speed (init_sketch\<lparr>speed := 1021, direction := 107, maxSpeed := 254\<rparr>) < 1024 \<and>
   direction (init_sketch\<lparr>speed := 1021, direction := 107, maxSpeed := 254\<rparr>) < 1024 \<and>
   joined_speed (serial_write (data (fill_general
       (init_sketch\<lparr>speed := 1021, direction := 107, maxSpeed := 254\<rparr>))) 10) = 1021 \<and>
   joined_direction (serial_write (data (fill_general
       (init_sketch\<lparr>speed := 1021, direction := 107, maxSpeed := 254\<rparr>))) 10) = 107 \<and>
   joined_speed_pot (serial_write (data (fill_general
       (init_sketch\<lparr>speed := 1021, direction := 107, maxSpeed := 254\<rparr>))) 10) = 254"
  using split_fields_lossless [of "init_sketch\<lparr>speed := 1021, direction := 107, maxSpeed := 254\<rparr>"]
  by simp

text \<open>
  C9: for every pair of pulse widths, the speed and direction values that
  \<open>sharkOnMode\<close> computes and places in the general packet lie in 1..1023, and
  an axis whose mapped pot value lies within the deadband of 20 around 512 gets
  exactly 512.
\<close>

theorem joystick_values_in_range:
  "1 \<le> speed (fst (sharkOnMode inp s)) \<and> speed (fst (sharkOnMode inp s)) \<le> 1023 \<and>
   1 \<le> direction (fst (sharkOnMode inp s)) \<and> direction (fst (sharkOnMode inp s)) \<le> 1023 \<and>
   joined_speed (snd (sharkOnMode inp s)) = speed (fst (sharkOnMode inp s)) \<and>
   joined_direction (snd (sharkOnMode inp s)) = direction (fst (sharkOnMode inp s)) \<and>
   (512 - Deadband \<le> speedPotVal (fst (sharkOnMode inp s)) \<and>
    speedPotVal (fst (sharkOnMode inp s)) \<le> 512 + Deadband
      \<longrightarrow> speed (fst (sharkOnMode inp s)) = 512) \<and>
   (512 - Deadband \<le> directionPotVal (fst (sharkOnMode inp s)) \<and>
    directionPotVal (fst (sharkOnMode inp s)) \<le> 512 + Deadband
      \<longrightarrow> direction (fst (sharkOnMode inp s)) = 512)"
  using deadband_of_range [OF sharkOnMode_pot_range(1), of inp s]
        deadband_of_range [OF sharkOnMode_pot_range(2), of inp s]
        deadband_of_neutral [of "speedPotVal (fst (sharkOnMode inp s))"]
        deadband_of_neutral [of "directionPotVal (fst (sharkOnMode inp s))"]
  by (simp add: sharkOnMode_fields(3,4) sharkOnMode_joined)

theorem joystick_values_in_range_witness:
  "512 - Deadband \<le> speedPotVal (fst (sharkOnMode switch_on_input init_sketch)) \<and>
   speedPotVal (fst (sharkOnMode switch_on_input init_sketch)) \<le> 512 + Deadband \<and>
   512 - Deadband \<le> directionPotVal (fst (sharkOnMode switch_on_input init_sketch)) \<and>
   directionPotVal (fst (sharkOnMode switch_on_input init_sketch)) \<le> 512 + Deadband \<and>
   speed (fst (sharkOnMode switch_on_input init_sketch)) = 512 \<and>
   direction (fst (sharkOnMode switch_on_input init_sketch)) = 512 \<and>
   joined_speed (snd (sharkOnMode switch_on_input init_sketch)) = 512 \<and>
   joined_direction (snd (sharkOnMode switch_on_input init_sketch)) = 512"
proof -
  have sp: "speedPotVal (fst (sharkOnMode switch_on_input init_sketch)) = 512"
    by code_simp
  have di: "directionPotVal (fst (sharkOnMode switch_on_input init_sketch)) = 512"
    by code_simp
  have h: "512 - Deadband \<le> (512::uword) \<and> (512::uword) \<le> 512 + Deadband"
    by (simp add: Deadband_def)
  from joystick_values_in_range [of switch_on_input init_sketch] h
  show ?thesis
    unfolding sp di by simp
qed

subsection \<open>Status bytes\<close>

text \<open>
  C10: in every general packet the bytes at index 5, 6 and 7 are 128, 132 and
  128: all switch, fault, indicator, inhibit and confirm bits are 0, the
  programmer-comms flow-control bit (bit 2 of byte 6) is 1 and the operating
  mode nibble is 0. These bytes and the end-of-turn byte are the same for any
  two inputs and any two states of the globals.
\<close>

theorem fixed_status_bytes:
  "snd (sharkOnMode inp s) ! 5 = 128 \<and>
   snd (sharkOnMode inp s) ! 6 = 132 \<and>
   snd (sharkOnMode inp s) ! 7 = 128 \<and>
   snd (sharkOnMode inp s) ! 5 AND 0x7F = 0 \<and>
   snd (sharkOnMode inp s) ! 6 AND 0x7F = 4 \<and>
   snd (sharkOnMode inp s) ! 7 AND 0x7F = 0 \<and>
   bit (snd (sharkOnMode inp s) ! 6) 2 \<and>
   \<not> bit (snd (sharkOnMode inp s) ! 6) 3 \<and>
   \<not> bit (snd (sharkOnMode inp s) ! 6) 0 \<and>
   snd (sharkOnMode inp s) ! 7 AND 0x0F = 0 \<and>
   take 3 (drop 5 (snd (sharkOnMode inp s))) = take 3 (drop 5 (snd (sharkOnMode inp' s'))) \<and>
   snd (sharkOnMode inp s) ! 9 = snd (sharkOnMode inp' s') ! 9 \<and>
   length (snd (sharkOnMode inp s)) = 10"
  unfolding sharkOnMode_out general_out
  by simp

end
